theory Spec2Isabelle
  imports Complex_Main "HOL-Library.Sublist" "HOL-Library.Multiset" "HOL-Library.Monad_Syntax"
begin

section \<open>Python values and exceptions\<close>

text \<open>
  The exceptions the scripts can meet.  Every \<open>raise\<close> of the source (and of the library
  calls it makes) is the \<open>Inl\<close> branch of a result \<open>py_error + 'a\<close>.
\<close>

datatype py_error =
  KeyError | TypeError | IndexError | AttributeError | ValueError | HTTPError | RequestException

section \<open>Job identifier extraction (\<open>s3_url_to_uuid\<close>)\<close>

text \<open>
  \<open>str.find\<close>: the index of the first occurrence of \<open>sep\<close> in the string, if any.
\<close>

fun find_sub :: "string \<Rightarrow> string \<Rightarrow> nat option" where
  "find_sub sep [] = (if sep = [] then Some 0 else None)"
| "find_sub sep (c # cs) =
     (if prefix sep (c # cs) then Some 0 else map_option Suc (find_sub sep cs))"

text \<open>
  \<open>str.partition(sep)\<close>: split at the first occurrence of \<open>sep\<close> into
  \<open>(before, sep, after)\<close>; \<open>(s, '', '')\<close> when \<open>sep\<close> does not occur.
\<close>

definition str_partition :: "string \<Rightarrow> string \<Rightarrow> string \<times> string \<times> string" where
  "str_partition sep s =
     (case find_sub sep s of
        None \<Rightarrow> (s, [], [])
      | Some i \<Rightarrow> (take i s, sep, drop (i + length sep) s))"

text \<open>\<open>str.split(c)\<close> for a one-character separator: the pieces between the separators.\<close>

fun str_split :: "char \<Rightarrow> string \<Rightarrow> string list" where
  "str_split c [] = [[]]"
| "str_split c (x # xs) =
     (if x = c then [] # str_split c xs
      else (let r = str_split c xs in (x # hd r) # tl r))"

text \<open>Indexing a list with \<open>[0]\<close>; Python raises \<open>IndexError\<close> on an empty list.\<close>

definition index0 :: "'a list \<Rightarrow> py_error + 'a" where
  "index0 xs = (case xs of [] \<Rightarrow> Inl IndexError | x # _ \<Rightarrow> Inr x)"

text \<open>
  \<open>search.py\<close>, lines 94-99:
  \<^verbatim>\<open>id_string = url.partition('job_id=')[2].split('/')[0]; return id_string\<close>
\<close>

definition s3_url_to_uuid :: "string \<Rightarrow> py_error + string" where
  "s3_url_to_uuid url =
     (case str_partition ''job_id='' url of (before, sep, after) \<Rightarrow>
        index0 (str_split CHR ''/'' after))"



section \<open>JSON values\<close>

text \<open>
  The documents of the stats index and the bodies of the point-query service are parsed
  JSON.  Numbers are rationals: Python compares \<open>int\<close> and finite \<open>float\<close> values by
  their mathematical value (\<open>1 == 1.0\<close>, \<open>-0.0 == 0.0\<close>), and the JSON booleans are the
  numbers \<open>1\<close> and \<open>0\<close> under \<open>==\<close> and \<open>hash\<close>.  \<open>JObj kvs\<close> is the dict whose items
  are \<open>kvs\<close>, with distinct keys, in insertion order.
\<close>

datatype jval =
  JNull | JNum rat | JStr string | JArr "jval list" | JObj "(string \<times> jval) list"

text \<open>
  \<open>v[k]\<close> for a string \<open>k\<close>: a dict raises \<open>KeyError\<close> on a missing key, every other
  value raises \<open>TypeError\<close>.
\<close>

fun getitem :: "jval \<Rightarrow> string \<Rightarrow> py_error + jval" where
  "getitem (JObj kvs) k = (case map_of kvs k of None \<Rightarrow> Inl KeyError | Some v \<Rightarrow> Inr v)"
| "getitem JNull k = Inl TypeError"
| "getitem (JNum x) k = Inl TypeError"
| "getitem (JStr s) k = Inl TypeError"
| "getitem (JArr xs) k = Inl TypeError"

text \<open>Lists and dicts are unhashable; a tuple is hashable when its components are.\<close>

fun hashable :: "jval \<Rightarrow> bool" where
  "hashable (JArr xs) = False"
| "hashable (JObj kvs) = False"
| "hashable JNull = True"
| "hashable (JNum x) = True"
| "hashable (JStr s) = True"

text \<open>
  Iterating a value, as \<open>list.extend\<close> does: a list yields its elements, a string its
  characters, a dict its keys; \<open>None\<close> and numbers are not iterable.
\<close>

fun iterate :: "jval \<Rightarrow> py_error + jval list" where
  "iterate (JArr xs) = Inr xs"
| "iterate (JStr s) = Inr (map (\<lambda>c. JStr [c]) s)"
| "iterate (JObj kvs) = Inr (map (\<lambda>kv. JStr (fst kv)) kvs)"
| "iterate JNull = Inl TypeError"
| "iterate (JNum x) = Inl TypeError"

section \<open>Insertion-ordered dictionaries\<close>

text \<open>
  \<open>src_id_map\<close> and \<open>insitu_dict\<close> are dicts that the scripts iterate over, so they are
  association lists in insertion order: \<open>d[k] = v\<close> replaces the value of an existing key
  in place and appends a new key at the end.
\<close>

definition dict_has :: "'k \<Rightarrow> ('k \<times> 'v) list \<Rightarrow> bool" where
  "dict_has k d = (map_of d k \<noteq> None)"

fun dict_set :: "'k \<Rightarrow> 'v \<Rightarrow> ('k \<times> 'v) list \<Rightarrow> ('k \<times> 'v) list" where
  "dict_set k v [] = [(k, v)]"
| "dict_set k v (p # ps) = (if fst p = k then (k, v) # ps else p # dict_set k v ps)"

definition dict_get :: "'k \<Rightarrow> ('k \<times> 'v list) list \<Rightarrow> 'v list" where
  "dict_get k d = (case map_of d k of None \<Rightarrow> [] | Some v \<Rightarrow> v)"

text \<open>
  \<open>dict_get\<close> is only used on keys that are present (the \<open>else\<close> branches of
  \<open>if key not in d\<close>), where it is \<open>d[k]\<close>.
\<close>

section \<open>Source Enumeration (\<open>search.py\<close>, lines 102-123)\<close>

record config =
  OPENSEARCH_PARQUET_PREFIX :: string
  DOMS_QUERY_URL :: string

record enum_state =
  docs :: nat
  added :: nat
  skipped :: nat
  ingest_uuids :: "string list"
  uuid_to_stats :: "string \<rightharpoonup> jval"
  draws :: nat

definition enum_init :: enum_state where
  "enum_init = \<lparr>docs = 0, added = 0, skipped = 0, ingest_uuids = [],
     uuid_to_stats = Map.empty, draws = 0\<rparr>"

text \<open>
  The loop over the scroll of the stats index.  \<open>ingest_uuids\<close> is a Python set: the list
  holds each member once.  \<open>rand k\<close> is the value of the \<open>k\<close>-th call of
  \<open>random.random()\<close>; the call is only made when the job already has a retained record
  (\<open>or\<close> evaluates its right operand only then).  An exception here is not caught by the
  script: the run dies with it.
\<close>

fun scan_stats ::
  "config \<Rightarrow> (nat \<Rightarrow> rat) \<Rightarrow> jval list \<Rightarrow> enum_state \<Rightarrow> py_error + enum_state" where
  "scan_stats cfg rand [] st = Inr st"
| "scan_stats cfg rand (doc # rest) st =
     (case getitem doc ''_source'' of
        Inl e \<Rightarrow> Inl e
      | Inr src \<Rightarrow>
         (case getitem src ''s3_url'' of
            Inl e \<Rightarrow> Inl e
          | Inr (JStr s3_url) \<Rightarrow>
              if \<not> prefix (OPENSEARCH_PARQUET_PREFIX cfg) s3_url
              then scan_stats cfg rand rest
                     (st\<lparr>docs := docs st + 1, skipped := skipped st + 1\<rparr>)
              else
               (case s3_url_to_uuid s3_url of
                  Inl e \<Rightarrow> Inl e
                | Inr uuid \<Rightarrow>
                    let st1 = st\<lparr>docs := docs st + 1, added := added st + 1,
                                 ingest_uuids := List.insert uuid (ingest_uuids st)\<rparr>
                    in if uuid_to_stats st1 uuid = None
                       then scan_stats cfg rand rest
                              (st1\<lparr>uuid_to_stats := (uuid_to_stats st1)(uuid \<mapsto> src)\<rparr>)
                       else if rand (draws st1) < 1 / 4
                       then scan_stats cfg rand rest
                              (st1\<lparr>uuid_to_stats := (uuid_to_stats st1)(uuid \<mapsto> src),
                                   draws := draws st1 + 1\<rparr>)
                       else scan_stats cfg rand rest (st1\<lparr>draws := draws st1 + 1\<rparr>))
          | Inr _ \<Rightarrow> Inl AttributeError))"

section \<open>Bounded Retrying Fetcher (\<open>get_es_docs_for_id\<close>, \<open>get_es_docs_for_url\<close>)\<close>

text \<open>
  One scan of the index (\<open>helpers.scan\<close> and the \<open>for\<close> loop that appends its documents):
  it yields some documents and then either ends or raises.
\<close>

datatype 'd scan_outcome = Completed "'d list" | Raised "'d list"

record 'd fetch_state =
  records :: "'d list"
  attempts :: nat
  slept :: "rat list"

text \<open>
  The \<open>while retries > 0\<close> loop of lines 144-163; \<open>scan k\<close> is the outcome of the \<open>k\<close>-th
  scan for this key.  Each attempt first executes \<open>records = []\<close>; \<open>Completed\<close> leaves by
  \<open>break\<close>; \<open>Raised\<close> decrements \<open>retries\<close>, sleeps \<open>retry_delay\<close> and doubles it.
\<close>

fun fetch_loop ::
  "(nat \<Rightarrow> 'd scan_outcome) \<Rightarrow> nat \<Rightarrow> rat \<Rightarrow> 'd fetch_state \<Rightarrow> 'd fetch_state" where
  "fetch_loop scan 0 retry_delay st = st"
| "fetch_loop scan (Suc retries) retry_delay st =
     (case scan (attempts st) of
        Completed ds \<Rightarrow> st\<lparr>records := [] @ ds, attempts := attempts st + 1\<rparr>
      | Raised ds \<Rightarrow>
          fetch_loop scan retries (retry_delay * 2)
            (st\<lparr>records := [] @ ds, attempts := attempts st + 1,
                slept := slept st @ [retry_delay]\<rparr>))"

fun is_raised :: "'d scan_outcome \<Rightarrow> bool" where
  "is_raised (Raised ds) = True"
| "is_raised (Completed ds) = False"

definition fetch_run :: "(nat \<Rightarrow> 'd scan_outcome) \<Rightarrow> 'd fetch_state" where
  "fetch_run scan = fetch_loop scan 3 (3 / 2) \<lparr>records = [], attempts = 0, slept = []\<rparr>"

definition get_es_docs_for_id :: "(string \<Rightarrow> nat \<Rightarrow> 'd scan_outcome) \<Rightarrow> string \<Rightarrow> string \<times> 'd list" where
  "get_es_docs_for_id es ident = (ident, records (fetch_run (es ident)))"

text \<open>\<open>check.py\<close>, lines 91-118: the same loop, matching on \<open>s3_url\<close>.\<close>

definition get_es_docs_for_url :: "(string \<Rightarrow> nat \<Rightarrow> 'd scan_outcome) \<Rightarrow> string \<Rightarrow> string \<times> 'd list" where
  "get_es_docs_for_url es url = (url, records (fetch_run (es url)))"


section \<open>Concurrent Dispatcher and File-to-Job Mapper (lines 170-200)\<close>

text \<open>
  A document of the files index, as the mapper reads it: \<open>doc['_source']['s3_url']\<close> and
  \<open>doc['_source']['job_end_time']\<close>.  The timestamps are values of one totally ordered
  type (numbers, or strings of one format), so that \<open>sorted\<close> can compare them.
\<close>

record 't file_doc =
  s3_url :: string
  job_end_time :: 't

text \<open>
  The pool runs one fetch per job id and \<open>as_completed\<close> hands the results over in the
  order the fetches finish: \<open>completion\<close> is that reordering.
\<close>

definition dispatch ::
  "((string \<times> 'd list) list \<Rightarrow> (string \<times> 'd list) list) \<Rightarrow>
   (string \<Rightarrow> nat \<Rightarrow> 'd scan_outcome) \<Rightarrow> string list \<Rightarrow> (string \<times> 'd list) list" where
  "dispatch completion es ids = completion (map (get_es_docs_for_id es) ids)"

type_synonym 't src_id_map = "(string \<times> (string \<times> 't) list) list"

text \<open>Lines 193-200: the inner loop over the documents of one job.\<close>

fun map_docs :: "string \<Rightarrow> 't file_doc list \<Rightarrow> 't src_id_map \<Rightarrow> 't src_id_map" where
  "map_docs ingest_id [] src_id_map = src_id_map"
| "map_docs ingest_id (doc # rest) src_id_map =
     (let src_url = s3_url doc; time = job_end_time doc
      in if \<not> dict_has src_url src_id_map
         then map_docs ingest_id rest (dict_set src_url [(ingest_id, time)] src_id_map)
         else map_docs ingest_id rest
                (dict_set src_url (dict_get src_url src_id_map @ [(ingest_id, time)]) src_id_map))"

text \<open>Lines 189-200: the loop over \<open>ingest_records\<close>, on \<open>(unconfirmed_duplicates, src_id_map)\<close>.\<close>

fun map_records ::
  "(string \<times> 't file_doc list) list \<Rightarrow> string list \<times> 't src_id_map \<Rightarrow>
   string list \<times> 't src_id_map" where
  "map_records [] acc = acc"
| "map_records ((ingest_id, es_records) # rest) (unconfirmed_duplicates, src_id_map) =
     (if length es_records = 0
      then map_records rest (unconfirmed_duplicates @ [ingest_id], src_id_map)
      else map_records rest (unconfirmed_duplicates, map_docs ingest_id es_records src_id_map))"

section \<open>Duplicate Classifier (lines 202-204)\<close>

text \<open>
  \<open>sorted(xs, key=f, reverse=True)\<close>: Python sorts stably, and with \<open>reverse=True\<close> the
  elements with equal keys keep their original order (the list is reversed, sorted
  stably in ascending order, and reversed again).
\<close>

definition sorted_reverse :: "('a \<Rightarrow> 'k::linorder) \<Rightarrow> 'a list \<Rightarrow> 'a list" where
  "sorted_reverse f xs = rev (sort_key f (rev xs))"

text \<open>
  Line 203: \<open>list(sorted(duplicates, key=lambda x: x[1], reverse=True))[1:]\<close>; the slice
  \<open>[1:]\<close> drops the first element (and is empty on an empty list).
\<close>

definition duplicate_jobs :: "(string \<times> 't::linorder) list \<Rightarrow> (string \<times> 't) list" where
  "duplicate_jobs duplicates = drop 1 (sorted_reverse snd duplicates)"


text \<open>The \<open>for\<close> loop of lines 202-204 over the entries with more than one pair.\<close>

fun classify_loop :: "(string \<times> 't::linorder) list list \<Rightarrow> string list \<Rightarrow> string list" where
  "classify_loop [] confirmed_duplicates = confirmed_duplicates"
| "classify_loop (duplicates # rest) confirmed_duplicates =
     classify_loop rest (confirmed_duplicates @ map fst (duplicate_jobs duplicates))"

definition shared_entries :: "('t::linorder) src_id_map \<Rightarrow> (string \<times> 't) list list" where
  "shared_entries src_id_map =
     map snd (filter (\<lambda>entry. length (snd entry) > 1) src_id_map)"

definition classify :: "('t::linorder) src_id_map \<Rightarrow> string list" where
  "classify src_id_map = classify_loop (shared_entries src_id_map) []"


section \<open>External Confirmation Fallback (lines 212-277)\<close>

subsection \<open>The query parameters (lines 219-236)\<close>

text \<open>Sequencing of steps that may raise: the first exception ends the computation.\<close>

definition and_then :: "py_error + 'a \<Rightarrow> ('a \<Rightarrow> py_error + 'b) \<Rightarrow> py_error + 'b" where
  "and_then r f = (case r of Inl e \<Rightarrow> Inl e | Inr v \<Rightarrow> f v)"

text \<open>
  Two library functions are parameters: \<open>py_str\<close> is the text an f-string substitutes for
  a value, and \<open>utc_strftime\<close> is
  \<^verbatim>\<open>datetime.utcfromtimestamp(v).strftime('%Y-%m-%dT%H:%M:%S%zZ')\<close>, which raises on a
  value that is not a number in range.
\<close>

record pylib =
  py_str :: "jval \<Rightarrow> string"
  utc_strftime :: "jval \<Rightarrow> py_error + string"

type_synonym params = "(string \<times> jval) list"

definition build_params :: "pylib \<Rightarrow> jval \<Rightarrow> py_error + params" where
  "build_params lib parquet_stats =
     and_then (getitem parquet_stats ''min_lon'') (\<lambda>min_lon.
     and_then (getitem parquet_stats ''min_lat'') (\<lambda>min_lat.
     and_then (getitem parquet_stats ''max_lon'') (\<lambda>max_lon.
     and_then (getitem parquet_stats ''max_lat'') (\<lambda>max_lat.
     and_then (getitem parquet_stats ''provider'') (\<lambda>provider.
     and_then (getitem parquet_stats ''project'') (\<lambda>project.
     and_then (getitem parquet_stats ''platform_code'') (\<lambda>platform.
     and_then (getitem parquet_stats ''min_depth'') (\<lambda>minDepth.
     and_then (getitem parquet_stats ''max_depth'') (\<lambda>maxDepth.
     and_then (getitem parquet_stats ''min_datetime'') (\<lambda>min_datetime.
     and_then (utc_strftime lib min_datetime) (\<lambda>startTime.
     and_then (getitem parquet_stats ''max_datetime'') (\<lambda>max_datetime.
     and_then (utc_strftime lib max_datetime) (\<lambda>endTime.
       Inr [(''provider'', provider), (''project'', project), (''platform'', platform),
            (''bbox'', JStr (py_str lib min_lon @ '','' @ py_str lib min_lat @ '','' @
                            py_str lib max_lon @ '','' @ py_str lib max_lat)),
            (''minDepth'', minDepth), (''maxDepth'', maxDepth),
            (''startTime'', JStr startTime), (''endTime'', JStr endTime),
            (''itemsPerPage'', JNum 20000)])))))))))))))"

subsection \<open>The paginated query (lines 238-260)\<close>

record response =
  status_code :: int
  body :: "jval option"

text \<open>
  The point-query service: \<open>http n url params\<close> is what the \<open>n\<close>-th \<open>session.get\<close> of the
  run does, a response or an exception of the \<open>requests\<close> library.  The state of the world
  that the fallback changes is the number of requests made and the delays slept.
\<close>

type_synonym http = "nat \<Rightarrow> jval \<Rightarrow> params \<Rightarrow> py_error + response"

type_synonym world = "nat \<times> rat list"

text \<open>
  Lines 249-252, entered with \<open>delay = 1\<close> and \<open>retries = 2\<close>:
  \<^verbatim>\<open>
  while retries > 0 and response.status_code != 200:
      sleep(delay)
      delay *= 2
      response = session.get(next_url, params=params)
  \<close>
  The body does not change \<open>retries\<close>.  The loop need not end, so the result is an option:
  \<open>None\<close> is a loop that runs forever.
\<close>

partial_function (option) retry_loop ::
  "http \<Rightarrow> jval \<Rightarrow> params \<Rightarrow> rat \<Rightarrow> nat \<Rightarrow> response \<Rightarrow> world \<Rightarrow>
   ((py_error + response) \<times> world) option" where
  "retry_loop http next_url params delay retries response w =
     (if retries > 0 \<and> status_code response \<noteq> 200
      then (case http (fst w) next_url params of
              Inl e \<Rightarrow> Some (Inl e, (fst w + 1, snd w @ [delay]))
            | Inr response' \<Rightarrow>
                retry_loop http next_url params (delay * 2) retries response'
                  (fst w + 1, snd w @ [delay]))
      else Some (Inr response, w))"

text \<open>\<open>response.raise_for_status()\<close> raises on the status codes 400 to 599.\<close>

definition raise_for_status :: "response \<Rightarrow> py_error + unit" where
  "raise_for_status r =
     (if 400 \<le> status_code r \<and> status_code r < 600 then Inl HTTPError else Inr ())"

text \<open>\<open>d.get(k, default)\<close>; only a dict has the method.\<close>

fun get_default :: "jval \<Rightarrow> string \<Rightarrow> jval \<Rightarrow> py_error + jval" where
  "get_default (JObj kvs) k d = (case map_of kvs k of None \<Rightarrow> Inr d | Some v \<Rightarrow> Inr v)"
| "get_default JNull k d = Inl AttributeError"
| "get_default (JNum x) k d = Inl AttributeError"
| "get_default (JStr s) k d = Inl AttributeError"
| "get_default (JArr xs) k d = Inl AttributeError"

text \<open>
  Lines 254-259: \<open>raise_for_status\<close>, \<open>response.json()\<close> (\<open>None\<close> is a body that is not
  JSON), the points of \<open>insitu_response['results']\<close> and \<open>insitu_response.get('next', None)\<close>.
\<close>

definition read_page :: "response \<Rightarrow> py_error + (jval list \<times> jval)" where
  "read_page response =
     and_then (raise_for_status response) (\<lambda>_.
     and_then (case body response of None \<Rightarrow> Inl ValueError | Some j \<Rightarrow> Inr j)
       (\<lambda>insitu_response.
     and_then (getitem insitu_response ''results'') (\<lambda>results.
     and_then (iterate results) (\<lambda>points.
     and_then (get_default insitu_response ''next'' JNull) (\<lambda>next_url.
       Inr (points, next_url))))))"

text \<open>
  Lines 243-260: \<open>while next_url is not None and next_url != 'NA'\<close>.  After the first page
  the parameters are empty (\<open>params = {}\<close>).
\<close>

partial_function (option) page_loop ::
  "http \<Rightarrow> jval \<Rightarrow> params \<Rightarrow> jval list \<Rightarrow> world \<Rightarrow>
   ((py_error + jval list) \<times> world) option" where
  "page_loop http next_url params insitu_points w =
     (if next_url \<noteq> JNull \<and> next_url \<noteq> JStr ''NA''
      then (case http (fst w) next_url params of
              Inl e \<Rightarrow> Some (Inl e, (fst w + 1, snd w))
            | Inr response \<Rightarrow>
                Option.bind (retry_loop http next_url params 1 2 response (fst w + 1, snd w))
                  (\<lambda>(r, w'). case r of
                       Inl e \<Rightarrow> Some (Inl e, w')
                     | Inr response' \<Rightarrow>
                        (case read_page response' of
                           Inl e \<Rightarrow> Some (Inl e, w')
                         | Inr (points, nxt) \<Rightarrow>
                             page_loop http nxt [] (insitu_points @ points) w')))
      else Some (Inr insitu_points, w))"

subsection \<open>Grouping the points (lines 262-275)\<close>

type_synonym point_key = "jval \<times> jval \<times> jval \<times> jval"

definition point_key :: "jval \<Rightarrow> py_error + point_key" where
  "point_key p =
     and_then (getitem p ''time'') (\<lambda>t.
     and_then (getitem p ''latitude'') (\<lambda>la.
     and_then (getitem p ''longitude'') (\<lambda>lo.
     and_then (getitem p ''depth'') (\<lambda>de. Inr (t, la, lo, de)))))"

fun hashable_key :: "point_key \<Rightarrow> bool" where
  "hashable_key (t, la, lo, de) = (hashable t \<and> hashable la \<and> hashable lo \<and> hashable de)"

text \<open>
  The \<open>for p in insitu_points\<close> loop; the test \<open>key not in insitu_dict\<close> hashes the key and
  raises \<open>TypeError\<close> when it cannot.
\<close>

fun group_points ::
  "jval list \<Rightarrow> (point_key \<times> jval list) list \<Rightarrow> py_error + (point_key \<times> jval list) list" where
  "group_points [] insitu_dict = Inr insitu_dict"
| "group_points (p # rest) insitu_dict =
     (case point_key p of
        Inl e \<Rightarrow> Inl e
      | Inr key \<Rightarrow>
          if \<not> hashable_key key then Inl TypeError
          else if \<not> dict_has key insitu_dict
          then (case getitem p ''job_id'' of
                  Inl e \<Rightarrow> Inl e
                | Inr job_id \<Rightarrow> group_points rest (dict_set key [job_id] insitu_dict))
          else (case getitem p ''job_id'' of
                  Inl e \<Rightarrow> Inl e
                | Inr job_id \<Rightarrow>
                    group_points rest
                      (dict_set key (dict_get key insitu_dict @ [job_id]) insitu_dict)))"

text \<open>
  What one iteration reads from a point, and what it does to the dict, for stating what
  the loop computes: the key, which must be hashable, and the job id; the job id starts
  the group of a new key and joins the group of a known one.
\<close>

definition read_point :: "jval \<Rightarrow> py_error + (point_key \<times> jval)" where
  "read_point p =
     and_then (point_key p) (\<lambda>key.
       if \<not> hashable_key key then Inl TypeError
       else and_then (getitem p ''job_id'') (\<lambda>job_id. Inr (key, job_id)))"

fun read_points :: "jval list \<Rightarrow> py_error + (point_key \<times> jval) list" where
  "read_points [] = Inr []"
| "read_points (p # rest) =
     and_then (read_point p) (\<lambda>kj. and_then (read_points rest) (\<lambda>kjs. Inr (kj # kjs)))"

definition add_point :: "('k \<times> 'v list) list \<Rightarrow> 'k \<times> 'v \<Rightarrow> ('k \<times> 'v list) list" where
  "add_point insitu_dict kj =
     (if \<not> dict_has (fst kj) insitu_dict then dict_set (fst kj) [snd kj] insitu_dict
      else dict_set (fst kj) (dict_get (fst kj) insitu_dict @ [snd kj]) insitu_dict)"

text \<open>
  The dict \<open>d\<close> groups the pairs \<open>kjs\<close>: its keys are the keys of the pairs, each once,
  and the value of a key is the list of the second components of its pairs, in order.
\<close>

definition groups_of :: "('k \<times> 'v list) list \<Rightarrow> ('k \<times> 'v) list \<Rightarrow> bool" where
  "groups_of d kjs \<longleftrightarrow> distinct (map fst d) \<and>
     (\<forall>k. map_of d k =
        (if k \<in> fst ` set kjs then Some (map snd (filter (\<lambda>kj. fst kj = k) kjs)) else None))"

text \<open>Line 271: \<open>any([len(insitu_dict[k]) > 1 for k in insitu_dict])\<close>.\<close>

definition any_group :: "('k \<times> 'v list) list \<Rightarrow> bool" where
  "any_group insitu_dict = list_ex (\<lambda>entry. length (snd entry) > 1) insitu_dict"

subsection \<open>One unconfirmed job (lines 218-277)\<close>

text \<open>
  The body of the \<open>try\<close>: \<open>Inr True\<close> when line 273 is reached, \<open>Inr False\<close> when line 275 is,
  \<open>Inl\<close> the exception otherwise.  \<open>uuid_to_stats[uuid]\<close> raises \<open>KeyError\<close> when the job has
  no retained stats record.
\<close>

definition try_job ::
  "pylib \<Rightarrow> config \<Rightarrow> http \<Rightarrow> (string \<rightharpoonup> jval) \<Rightarrow> string \<Rightarrow> world \<Rightarrow>
   ((py_error + bool) \<times> world) option" where
  "try_job lib cfg http stats uuid w =
     (case stats uuid of
        None \<Rightarrow> Some (Inl KeyError, w)
      | Some parquet_stats \<Rightarrow>
         (case build_params lib parquet_stats of
            Inl e \<Rightarrow> Some (Inl e, w)
          | Inr params \<Rightarrow>
              Option.bind (page_loop http (JStr (DOMS_QUERY_URL cfg)) params [] w)
                (\<lambda>(r, w'). case r of
                     Inl e \<Rightarrow> Some (Inl e, w')
                   | Inr insitu_points \<Rightarrow>
                      (case group_points insitu_points [] of
                         Inl e \<Rightarrow> Some (Inl e, w')
                       | Inr insitu_dict \<Rightarrow> Some (Inr (any_group insitu_dict), w')))))"

record search_result =
  confirmed_duplicates :: "string list"
  suspected_duplicates :: "string list"
  missing_ingest_records :: "string list"

text \<open>The \<open>try\<close> with its bare \<open>except\<close>, on the three result lists.\<close>

definition check_job ::
  "pylib \<Rightarrow> config \<Rightarrow> http \<Rightarrow> (string \<rightharpoonup> jval) \<Rightarrow> string \<Rightarrow> search_result \<times> world \<Rightarrow>
   (search_result \<times> world) option" where
  "check_job lib cfg http stats uuid s =
     Option.bind (try_job lib cfg http stats uuid (snd s))
       (\<lambda>(r, w'). case r of
            Inl e \<Rightarrow>
              Some ((fst s)\<lparr>suspected_duplicates := suspected_duplicates (fst s) @ [uuid]\<rparr>, w')
          | Inr True \<Rightarrow>
              Some ((fst s)\<lparr>confirmed_duplicates := confirmed_duplicates (fst s) @ [uuid]\<rparr>, w')
          | Inr False \<Rightarrow>
              Some ((fst s)\<lparr>missing_ingest_records := missing_ingest_records (fst s) @ [uuid]\<rparr>,
                    w'))"

text \<open>The \<open>for uuid in unconfirmed_duplicates\<close> loop.\<close>

fun fallback_loop ::
  "pylib \<Rightarrow> config \<Rightarrow> http \<Rightarrow> (string \<rightharpoonup> jval) \<Rightarrow> string list \<Rightarrow> search_result \<times> world \<Rightarrow>
   (search_result \<times> world) option" where
  "fallback_loop lib cfg http stats [] s = Some s"
| "fallback_loop lib cfg http stats (uuid # rest) s =
     (case check_job lib cfg http stats uuid s of
        None \<Rightarrow> None
      | Some s' \<Rightarrow> fallback_loop lib cfg http stats rest s')"

section \<open>The end of the run (lines 209-290)\<close>

text \<open>
  The result is the list of documents written to \<open>search_result.json\<close>, in the order of
  the writes, and the final world; \<open>None\<close> is a run that never gets there.
\<close>

definition report ::
  "pylib \<Rightarrow> config \<Rightarrow> http \<Rightarrow> (string \<rightharpoonup> jval) \<Rightarrow> string list \<Rightarrow> string list \<Rightarrow> world \<Rightarrow>
   (search_result list \<times> world) option" where
  "report lib cfg http stats unconfirmed confirmed w =
     (if length unconfirmed = 0 \<and> length confirmed = 0 then Some ([], w)
      else
        (case fallback_loop lib cfg http stats unconfirmed
                (\<lparr>confirmed_duplicates = confirmed, suspected_duplicates = [],
                  missing_ingest_records = []\<rparr>, w) of
           None \<Rightarrow> None
         | Some (out, w') \<Rightarrow> Some ([out], w')))"

text \<open>The whole script; an exception outside the \<open>try\<close> of the fallback ends it.\<close>

definition search ::
  "pylib \<Rightarrow> config \<Rightarrow> (nat \<Rightarrow> rat) \<Rightarrow> http \<Rightarrow>
   (string \<Rightarrow> nat \<Rightarrow> ('t::linorder) file_doc scan_outcome) \<Rightarrow>
   ((string \<times> 't file_doc list) list \<Rightarrow> (string \<times> 't file_doc list) list) \<Rightarrow>
   jval list \<Rightarrow> (py_error + search_result list) option" where
  "search lib cfg rand http es completion stats_docs =
     (case scan_stats cfg rand stats_docs enum_init of
        Inl e \<Rightarrow> Some (Inl e)
      | Inr st \<Rightarrow>
          (let ingest_records = dispatch completion es (ingest_uuids st);
               (unconfirmed, src_id_map) = map_records ingest_records ([], [])
           in map_option (\<lambda>r. Inr (fst r))
                (report lib cfg http (uuid_to_stats st) unconfirmed (classify src_id_map) (0, []))))"


section \<open>Example environments\<close>

text \<open>
  An index on which every scan of a key yields one document and then raises, and one on
  which the first scan does so and the second completes.
\<close>

definition es_partial_failures :: "string \<Rightarrow> nat \<Rightarrow> nat file_doc scan_outcome" where
  "es_partial_failures ident k = Raised [\<lparr>s3_url = ''f1'', job_end_time = k\<rparr>]"

definition es_second_completes :: "string \<Rightarrow> nat \<Rightarrow> nat file_doc scan_outcome" where
  "es_second_completes ident k =
     (if k = 0 then Raised [\<lparr>s3_url = ''f1'', job_end_time = 1\<rparr>]
      else Completed [\<lparr>s3_url = ''f2'', job_end_time = 2\<rparr>])"

text \<open>
  A configuration, library functions, a stats record with every field the query needs, and
  a point of the external service.
\<close>

definition ex_cfg :: config where
  "ex_cfg = \<lparr>OPENSEARCH_PARQUET_PREFIX = ''s3://b/p/'', DOMS_QUERY_URL = ''https://doms/query''\<rparr>"

definition ex_lib :: pylib where
  "ex_lib = \<lparr>py_str = (\<lambda>v. ''0.0''), utc_strftime = (\<lambda>v. Inr ''1970-01-01T00:00:00Z'')\<rparr>"

definition ex_stats :: jval where
  "ex_stats = JObj [(''s3_url'', JStr ''s3://b/p/job_id=D/x.parquet''),
     (''min_lon'', JNum 0), (''min_lat'', JNum 0), (''max_lon'', JNum 1), (''max_lat'', JNum 1),
     (''provider'', JStr ''P''), (''project'', JStr ''Q''), (''platform_code'', JStr ''30''),
     (''min_depth'', JNum 0), (''max_depth'', JNum 5),
     (''min_datetime'', JNum 0), (''max_datetime'', JNum 60)]"

definition ex_point :: jval where
  "ex_point = JObj [(''time'', JStr ''1970-01-01T00:00:30Z''), (''latitude'', JNum (1 / 2)),
     (''longitude'', JNum (1 / 2)), (''depth'', JNum 3), (''job_id'', JStr ''J1'')]"

definition ex_point_other :: jval where
  "ex_point_other = JObj [(''time'', JStr ''1970-01-01T00:00:30Z''), (''latitude'', JNum (1 / 2)),
     (''longitude'', JNum (1 / 2)), (''depth'', JNum 3), (''job_id'', JStr ''J2'')]"

definition ex_uuid_to_stats :: "string \<rightharpoonup> jval" where
  "ex_uuid_to_stats = [''D'' \<mapsto> ex_stats]"

text \<open>
  A service that answers every request with one page holding the same point twice, one
  whose page holds two points of different jobs at the same place and time, and one that
  answers every request with status 500.
\<close>

definition http_two_jobs :: http where
  "http_two_jobs n url params =
     Inr \<lparr>status_code = 200,
          body = Some (JObj [(''results'', JArr [ex_point, ex_point_other]),
                             (''next'', JStr ''NA'')])\<rparr>"

definition http_same_job :: http where
  "http_same_job n url params =
     Inr \<lparr>status_code = 200,
          body = Some (JObj [(''results'', JArr [ex_point, ex_point]), (''next'', JStr ''NA'')])\<rparr>"

definition http_always_500 :: http where
  "http_always_500 n url params = Inr \<lparr>status_code = 500, body = None\<rparr>"

definition out_init :: search_result where
  "out_init = \<lparr>confirmed_duplicates = [], suspected_duplicates = [], missing_ingest_records = []\<rparr>"

text \<open>
  A stats index with one record for each of the jobs \<open>A\<close> and \<open>B\<close>, random draws that
  are all 0, a files index in which both jobs have a record for the source files \<open>f1\<close> and
  \<open>f2\<close>, \<open>A\<close> with the later timestamp, and a files index without any record.
\<close>

definition ex_stats_docs :: "jval list" where
  "ex_stats_docs =
     [JObj [(''_source'', JObj [(''s3_url'', JStr ''s3://b/p/job_id=A/x.parquet'')])],
      JObj [(''_source'', JObj [(''s3_url'', JStr ''s3://b/p/job_id=B/x.parquet'')])]]"

definition ex_rand :: "nat \<Rightarrow> rat" where
  "ex_rand k = 0"

definition es_shared_files :: "string \<Rightarrow> nat \<Rightarrow> nat file_doc scan_outcome" where
  "es_shared_files ident k =
     Completed [\<lparr>s3_url = ''f1'', job_end_time = (if ident = ''A'' then 5 else 3)\<rparr>,
                \<lparr>s3_url = ''f2'', job_end_time = (if ident = ''A'' then 5 else 3)\<rparr>]"

definition es_no_files :: "string \<Rightarrow> nat \<Rightarrow> nat file_doc scan_outcome" where
  "es_no_files ident k = Completed []"

section \<open>Properties of the job identifier extraction\<close>










section \<open>Properties of the Bounded Retrying Fetcher\<close>

lemma fetch_run_unfold:
  "fetch_run scan =
     (case scan 0 of
        Completed ds \<Rightarrow> \<lparr>records = ds, attempts = 1, slept = []\<rparr>
      | Raised _ \<Rightarrow>
         (case scan 1 of
            Completed ds \<Rightarrow> \<lparr>records = ds, attempts = 2, slept = [3 / 2]\<rparr>
          | Raised _ \<Rightarrow>
             (case scan 2 of
                Completed ds \<Rightarrow> \<lparr>records = ds, attempts = 3, slept = [3 / 2, 3]\<rparr>
              | Raised ds \<Rightarrow> \<lparr>records = ds, attempts = 3, slept = [3 / 2, 3, 6]\<rparr>)))"
  by (simp add: fetch_run_def numeral_3_eq_3 numeral_2_eq_2 split: scan_outcome.splits)

lemma fetch_first_success:
  assumes "k < 3" and "\<forall>j<k. is_raised (scan j)" and "scan k = Completed ds"
  shows "fetch_run scan = \<lparr>records = ds, attempts = k + 1, slept = take k [3 / 2, 3, 6]\<rparr>"
proof -
  from assms(1) consider "k = 0" | "k = 1" | "k = 2" by linarith
  then show ?thesis
  proof cases
    case 1
    with assms show ?thesis by (simp add: fetch_run_unfold)
  next
    case 2
    with assms have "is_raised (scan 0)" by simp
    with 2 assms show ?thesis
      by (cases "scan 0") (simp_all add: fetch_run_unfold)
  next
    case 3
    with assms have "is_raised (scan 0)" "is_raised (scan (Suc 0))" by simp_all
    with 3 assms show ?thesis
      by (cases "scan 0"; cases "scan (Suc 0)") (simp_all add: fetch_run_unfold)
  qed
qed

lemma fetch_all_fail:
  assumes "\<forall>j<2. is_raised (scan j)" and "scan 2 = Raised ds"
  shows "fetch_run scan = \<lparr>records = ds, attempts = 3, slept = [3 / 2, 3, 6]\<rparr>"
proof -
  from assms have "is_raised (scan 0)" "is_raised (scan (Suc 0))" by simp_all
  with assms show ?thesis
    by (cases "scan 0"; cases "scan (Suc 0)") (simp_all add: fetch_run_unfold)
qed

lemma fetch_attempts_le: "attempts (fetch_run scan) \<le> 3"
  by (simp add: fetch_run_unfold split: scan_outcome.splits)

text \<open>
  Claim C7, as the code has it.  The fetcher scans at most 3 times.  When the scan
  number \<open>k\<close> (counted from 0) is the first to complete, the fetcher returns its key with
  exactly the documents of that scan, after sleeping the first \<open>k\<close> of the delays 1.5, 3, 6.
  When all three scans raise, it sleeps 1.5, 3 and 6 and returns its key with the documents
  that the third scan had yielded before it raised; it does not raise.  The same holds for
  the copy of the loop in \<open>check.py\<close>.
\<close>

theorem fetcher_bounded_retry:
  "attempts (fetch_run (es key)) \<le> 3 \<and>
   (\<forall>k ds. k < 3 \<and> (\<forall>j<k. is_raised (es key j)) \<and> es key k = Completed ds \<longrightarrow>
      get_es_docs_for_id es key = (key, ds) \<and> get_es_docs_for_url es key = (key, ds) \<and>
      attempts (fetch_run (es key)) = k + 1 \<and>
      slept (fetch_run (es key)) = take k [3 / 2, 3, 6]) \<and>
   (\<forall>ds. (\<forall>j<2. is_raised (es key j)) \<and> es key 2 = Raised ds \<longrightarrow>
      get_es_docs_for_id es key = (key, ds) \<and> get_es_docs_for_url es key = (key, ds) \<and>
      attempts (fetch_run (es key)) = 3 \<and>
      slept (fetch_run (es key)) = [3 / 2, 3, 6])"
proof (intro conjI allI impI)
  show "attempts (fetch_run (es key)) \<le> 3"
    by (rule fetch_attempts_le)
next
  fix k ds
  assume "k < 3 \<and> (\<forall>j<k. is_raised (es key j)) \<and> es key k = Completed ds"
  then have run: "fetch_run (es key) =
      \<lparr>records = ds, attempts = k + 1, slept = take k [3 / 2, 3, 6]\<rparr>"
    using fetch_first_success [of k "es key" ds] by blast
  show "get_es_docs_for_id es key = (key, ds)"
    by (simp add: get_es_docs_for_id_def run)
  show "get_es_docs_for_url es key = (key, ds)"
    by (simp add: get_es_docs_for_url_def run)
  show "attempts (fetch_run (es key)) = k + 1"
    by (simp add: run)
  show "slept (fetch_run (es key)) = take k [3 / 2, 3, 6]"
    by (simp add: run)
next
  fix ds
  assume "(\<forall>j<2. is_raised (es key j)) \<and> es key 2 = Raised ds"
  then have run: "fetch_run (es key) =
      \<lparr>records = ds, attempts = 3, slept = [3 / 2, 3, 6]\<rparr>"
    using fetch_all_fail [of "es key" ds] by blast
  show "get_es_docs_for_id es key = (key, ds)"
    by (simp add: get_es_docs_for_id_def run)
  show "get_es_docs_for_url es key = (key, ds)"
    by (simp add: get_es_docs_for_url_def run)
  show "attempts (fetch_run (es key)) = 3"
    by (simp add: run)
  show "slept (fetch_run (es key)) = [3 / 2, 3, 6]"
    by (simp add: run)
qed

theorem fetcher_bounded_retry_witness:
  "(1::nat) < 3 \<and> is_raised (es_second_completes ''job'' 0) \<and>
   es_second_completes ''job'' 1 = Completed [\<lparr>s3_url = ''f2'', job_end_time = 2\<rparr>] \<and>
   get_es_docs_for_id es_second_completes ''job'' =
     (''job'', [\<lparr>s3_url = ''f2'', job_end_time = 2\<rparr>]) \<and>
   slept (fetch_run (es_second_completes ''job'')) = [3 / 2] \<and>
   is_raised (es_partial_failures ''job'' 0) \<and> is_raised (es_partial_failures ''job'' 1) \<and>
   es_partial_failures ''job'' 2 = Raised [\<lparr>s3_url = ''f1'', job_end_time = 2\<rparr>] \<and>
   get_es_docs_for_url es_partial_failures ''job'' =
     (''job'', [\<lparr>s3_url = ''f1'', job_end_time = 2\<rparr>]) \<and>
   slept (fetch_run (es_partial_failures ''job'')) = [3 / 2, 3, 6]"
proof -
  have a: "(1::nat) < 3 \<and> (\<forall>j<1. is_raised (es_second_completes ''job'' j)) \<and>
     es_second_completes ''job'' 1 = Completed [\<lparr>s3_url = ''f2'', job_end_time = 2\<rparr>]"
    by (simp add: es_second_completes_def)
  have b: "(\<forall>j<2. is_raised (es_partial_failures ''job'' j)) \<and>
     es_partial_failures ''job'' 2 = Raised [\<lparr>s3_url = ''f1'', job_end_time = 2\<rparr>]"
    by (simp add: es_partial_failures_def)
  from fetcher_bounded_retry [of es_second_completes "''job''"] a
  have c: "get_es_docs_for_id es_second_completes ''job'' =
       (''job'', [\<lparr>s3_url = ''f2'', job_end_time = 2\<rparr>]) \<and>
     slept (fetch_run (es_second_completes ''job'')) = take 1 [3 / 2, 3, 6]"
    by blast
  from fetcher_bounded_retry [of es_partial_failures "''job''"] b
  have d: "get_es_docs_for_url es_partial_failures ''job'' =
       (''job'', [\<lparr>s3_url = ''f1'', job_end_time = 2\<rparr>]) \<and>
     slept (fetch_run (es_partial_failures ''job'')) = [3 / 2, 3, 6]"
    by blast
  from a b c d show ?thesis by (simp add: es_partial_failures_def)
qed

text \<open>
  Claim C7 as stated fails: when all three scans raise after yielding a document, the
  record list returned is not empty.
\<close>

theorem fetcher_exhausted_counterexample:
  "is_raised (es_partial_failures ''job'' 0) \<and> is_raised (es_partial_failures ''job'' 1) \<and>
   is_raised (es_partial_failures ''job'' 2) \<and>
   get_es_docs_for_id es_partial_failures ''job'' =
     (''job'', [\<lparr>s3_url = ''f1'', job_end_time = 2\<rparr>]) \<and>
   get_es_docs_for_id es_partial_failures ''job'' \<noteq> (''job'', [])"
  by (simp add: get_es_docs_for_id_def fetch_run_unfold es_partial_failures_def)

section \<open>Properties of the Duplicate Classifier\<close>













section \<open>Properties of the File-to-Job Mapper and the classification sets\<close>

lemma dict_set_subset: "set (dict_set k v d) \<subseteq> insert (k, v) (set d)"
  by (induction d) auto

lemma dict_get_mem: "dict_has k d \<Longrightarrow> (k, dict_get k d) \<in> set d"
  by (auto simp: dict_has_def dict_get_def dest: map_of_SomeD)

lemma map_docs_origin:
  assumes "(src, ds) \<in> set (map_docs i dcs M)" and "p \<in> set ds"
  shows "(fst p = i \<and> dcs \<noteq> []) \<or> (\<exists>src' ds'. (src', ds') \<in> set M \<and> p \<in> set ds')"
  using assms
proof (induction dcs arbitrary: M)
  case Nil
  then show ?case by auto
next
  case (Cons doc rest)
  let ?u = "s3_url doc" and ?t = "job_end_time doc"
  show ?case
  proof (cases "dict_has ?u M")
    case False
    with Cons.prems have "(src, ds) \<in> set (map_docs i rest (dict_set ?u [(i, ?t)] M))"
      by (simp add: Let_def)
    from Cons.IH [OF this Cons.prems(2)]
    show ?thesis
      using dict_set_subset [of ?u "[(i, ?t)]" M] by auto
  next
    case True
    with Cons.prems
    have "(src, ds) \<in> set (map_docs i rest (dict_set ?u (dict_get ?u M @ [(i, ?t)]) M))"
      by (simp add: Let_def)
    from Cons.IH [OF this Cons.prems(2)]
    show ?thesis
      using dict_set_subset [of ?u "dict_get ?u M @ [(i, ?t)]" M] dict_get_mem [OF True]
      by auto
  qed
qed

lemma map_records_inv:
  assumes "map_records recs (U, M) = (U', M')"
  shows "set U' = set U \<union> {i. (i, []) \<in> set recs} \<and>
    (\<forall>src ds p. (src, ds) \<in> set M' \<and> p \<in> set ds \<longrightarrow>
       (\<exists>src' ds'. (src', ds') \<in> set M \<and> p \<in> set ds') \<or>
       (\<exists>dcs. (fst p, dcs) \<in> set recs \<and> dcs \<noteq> []))"
  using assms
proof (induction recs arbitrary: U M)
  case Nil
  then show ?case by auto
next
  case (Cons r rest)
  obtain i dcs where r: "r = (i, dcs)" by (cases r)
  show ?case
  proof (cases "dcs = []")
    case True
    with Cons.prems r have "map_records rest (U @ [i], M) = (U', M')" by simp
    from Cons.IH [OF this]
    have A: "set U' = set (U @ [i]) \<union> {i. (i, []) \<in> set rest}"
      and B: "\<forall>src ds p. (src, ds) \<in> set M' \<and> p \<in> set ds \<longrightarrow>
       (\<exists>src' ds'. (src', ds') \<in> set M \<and> p \<in> set ds') \<or>
       (\<exists>dcs. (fst p, dcs) \<in> set rest \<and> dcs \<noteq> [])"
      by blast+
    from A True r have "set U' = set U \<union> {j. (j, []) \<in> set (r # rest)}"
      by auto
    moreover from B have "\<forall>src ds p. (src, ds) \<in> set M' \<and> p \<in> set ds \<longrightarrow>
       (\<exists>src' ds'. (src', ds') \<in> set M \<and> p \<in> set ds') \<or>
       (\<exists>dcs. (fst p, dcs) \<in> set (r # rest) \<and> dcs \<noteq> [])"
      by fastforce
    ultimately show ?thesis by blast
  next
    case False
    with Cons.prems r have "map_records rest (U, map_docs i dcs M) = (U', M')" by simp
    from Cons.IH [OF this]
    have U: "set U' = set U \<union> {i. (i, []) \<in> set rest}"
      and M: "\<And>src ds p. (src, ds) \<in> set M' \<Longrightarrow> p \<in> set ds \<Longrightarrow>
       (\<exists>src' ds'. (src', ds') \<in> set (map_docs i dcs M) \<and> p \<in> set ds') \<or>
       (\<exists>dcs. (fst p, dcs) \<in> set rest \<and> dcs \<noteq> [])"
      by blast+
    have "(\<exists>src' ds'. (src', ds') \<in> set M \<and> p \<in> set ds') \<or>
       (\<exists>dcs. (fst p, dcs) \<in> set (r # rest) \<and> dcs \<noteq> [])"
      if "(src, ds) \<in> set M'" "p \<in> set ds" for src ds p
      using M [OF that] map_docs_origin [of _ _ i dcs M p] False r by fastforce
    then have "\<forall>src ds p. (src, ds) \<in> set M' \<and> p \<in> set ds \<longrightarrow>
       (\<exists>src' ds'. (src', ds') \<in> set M \<and> p \<in> set ds') \<or>
       (\<exists>dcs. (fst p, dcs) \<in> set (r # rest) \<and> dcs \<noteq> [])"
      by blast
    moreover from U False r have "set U' = set U \<union> {j. (j, []) \<in> set (r # rest)}"
      by auto
    ultimately show ?thesis by blast
  qed
qed

lemma classify_loop_eq:
  "classify_loop es c = c @ concat (map (\<lambda>ds. map fst (duplicate_jobs ds)) es)"
  by (induction es arbitrary: c) auto

lemma set_duplicate_jobs: "set (duplicate_jobs ds) \<subseteq> set ds"
  using set_drop_subset [of 1 "sorted_reverse snd ds"]
  by (simp add: duplicate_jobs_def sorted_reverse_def)

lemma classify_origin:
  assumes "c \<in> set (classify M)"
  shows "\<exists>src ds. (src, ds) \<in> set M \<and> 2 \<le> length ds \<and> c \<in> fst ` set ds"
proof -
  from assms obtain ds where "ds \<in> set (shared_entries M)" "c \<in> fst ` set (duplicate_jobs ds)"
    by (auto simp: classify_def classify_loop_eq)
  moreover from this obtain src where "(src, ds) \<in> set M" "1 < length ds"
    by (auto simp: shared_entries_def)
  ultimately show ?thesis
    using set_duplicate_jobs [of ds] by (intro exI [of _ src] exI [of _ ds]) auto
qed

text \<open>
  Claim C6.  The fetch results hold one entry per job id.  Then no job id is both in
  \<open>unconfirmed_duplicates\<close> and in \<open>confirmed_duplicates\<close> after lines 189-204: an unconfirmed
  job id is one whose fetch returned no document, and a confirmed job id occurs in an entry
  of \<open>src_id_map\<close> with at least two pairs.
\<close>

theorem classifier_disjoint:
  assumes "distinct (map fst ingest_records)"
    and "map_records ingest_records ([], []) = (unconfirmed, src_id_map)"
  shows "set unconfirmed \<inter> set (classify src_id_map) = {} \<and>
    (\<forall>u\<in>set unconfirmed. (u, []) \<in> set ingest_records) \<and>
    (\<forall>c\<in>set (classify src_id_map).
        \<exists>src ds. (src, ds) \<in> set src_id_map \<and> 2 \<le> length ds \<and> c \<in> fst ` set ds)"
proof -
  note inv = map_records_inv [OF assms(2)]
  have unc: "(u, []) \<in> set ingest_records" if "u \<in> set unconfirmed" for u
    using inv that by auto
  have conf: "\<exists>dcs. (c, dcs) \<in> set ingest_records \<and> dcs \<noteq> []"
    if "c \<in> set (classify src_id_map)" for c
  proof -
    from classify_origin [OF that] obtain src ds p
      where "(src, ds) \<in> set src_id_map" "p \<in> set ds" "c = fst p" by auto
    with inv show ?thesis by fastforce
  qed
  have "False" if "u \<in> set unconfirmed" "u \<in> set (classify src_id_map)" for u
  proof -
    from conf [OF that(2)] obtain dcs where "(u, dcs) \<in> set ingest_records" "dcs \<noteq> []"
      by blast
    with unc [OF that(1)] assms(1) show False
      by (meson eq_key_imp_eq_value)
  qed
  then have "set unconfirmed \<inter> set (classify src_id_map) = {}" by blast
  with unc classify_origin show ?thesis by blast
qed


theorem classifier_disjoint_witness:
  "distinct (map fst [(''A'', [\<lparr>s3_url = ''f1'', job_end_time = 5::nat\<rparr>]),
                      (''B'', [\<lparr>s3_url = ''f1'', job_end_time = 3\<rparr>]), (''C'', [])]) \<and>
   map_records [(''A'', [\<lparr>s3_url = ''f1'', job_end_time = 5::nat\<rparr>]),
                (''B'', [\<lparr>s3_url = ''f1'', job_end_time = 3\<rparr>]), (''C'', [])] ([], []) =
     ([''C''], [(''f1'', [(''A'', 5), (''B'', 3)])]) \<and>
   classify [(''f1'', [(''A'', 5::nat), (''B'', 3)])] = [''B''] \<and>
   set [''C''] \<inter> set (classify [(''f1'', [(''A'', 5::nat), (''B'', 3)])]) = {}"
proof -
  have a: "distinct (map fst [(''A'', [\<lparr>s3_url = ''f1'', job_end_time = 5::nat\<rparr>]),
                      (''B'', [\<lparr>s3_url = ''f1'', job_end_time = 3\<rparr>]), (''C'', [])])"
    by simp
  have b: "map_records [(''A'', [\<lparr>s3_url = ''f1'', job_end_time = 5::nat\<rparr>]),
                (''B'', [\<lparr>s3_url = ''f1'', job_end_time = 3\<rparr>]), (''C'', [])] ([], []) =
     ([''C''], [(''f1'', [(''A'', 5), (''B'', 3)])])"
    by (simp add: dict_has_def dict_get_def)
  have c: "classify [(''f1'', [(''A'', 5::nat), (''B'', 3)])] = [''B'']"
    by (simp add: classify_def shared_entries_def duplicate_jobs_def sorted_reverse_def)
  from classifier_disjoint [OF a b]
  have "set [''C''] \<inter> set (classify [(''f1'', [(''A'', 5::nat), (''B'', 3)])]) = {}"
    by blast
  with a b c show ?thesis by blast
qed

section \<open>Properties of the External Confirmation Fallback\<close>

subsection \<open>The retry loop of the page fetch\<close>

lemma retry_loop_Some_stops:
  assumes "retry_loop http url params delay retries response w = Some y"
  shows "(\<forall>n. \<exists>r. http n url params = Inr r \<and> status_code r \<noteq> 200) \<longrightarrow>
     \<not> (retries > 0 \<and> status_code response \<noteq> 200)"
  using assms
proof (induction rule: retry_loop.raw_induct [where P = "\<lambda>http url params delay retries response w y.
          (\<forall>n. \<exists>r. http n url params = Inr r \<and> status_code r \<noteq> 200) \<longrightarrow>
          \<not> (retries > 0 \<and> status_code response \<noteq> 200)", rotated 1, consumes 1, case_names step])
  case (step f http next_url params delay retries response w y)
  show ?case
  proof (intro impI notI)
    assume a: "\<forall>n. \<exists>r. http n next_url params = Inr r \<and> status_code r \<noteq> 200"
    assume c: "0 < retries \<and> status_code response \<noteq> 200"
    from a obtain r where r: "http (fst w) next_url params = Inr r" "status_code r \<noteq> 200"
      by blast
    with c step(2)
    have "f http next_url params (delay * 2) retries r (fst w + 1, snd w @ [delay]) = Some y"
      by simp
    from step(1) [OF this] a c r show False by simp
  qed
qed

lemma retry_loop_diverges:
  assumes "\<forall>n. \<exists>r. http n url params = Inr r \<and> status_code r \<noteq> 200"
    and "retries > 0" and "status_code response \<noteq> 200"
  shows "retry_loop http url params delay retries response w = None"
proof (cases "retry_loop http url params delay retries response w")
  case None
  then show ?thesis .
next
  case (Some y)
  from retry_loop_Some_stops [OF Some] assms show ?thesis by blast
qed

lemma page_loop_500: "page_loop http_always_500 (JStr u) params pts w = None"
  if "u \<noteq> ''NA''"
proof -
  have "retry_loop http_always_500 (JStr u) params 1 2 \<lparr>status_code = 500, body = None\<rparr> (fst w + 1, snd w) = None"
    by (rule retry_loop_diverges) (simp_all add: http_always_500_def)
  then show ?thesis
    using that by (subst page_loop.simps) (simp add: http_always_500_def)
qed

lemma build_params_ex: "\<exists>ps. build_params ex_lib ex_stats = Inr ps"
  by (simp add: build_params_def ex_stats_def ex_lib_def and_then_def)


text \<open>
  Claim C4 fails on the code.  The body of the loop of lines 249-252 never changes
  \<open>retries\<close>, so against a service that answers every request with status 500 the loop
  never ends: the job is not classified, as suspected or otherwise, and the run writes no
  result.
\<close>

theorem retry_never_gives_up:
  "check_job ex_lib ex_cfg http_always_500 ex_uuid_to_stats ''D'' (out_init, (0, [])) = None \<and>
   report ex_lib ex_cfg http_always_500 ex_uuid_to_stats [''D''] [] (0, []) = None"
proof -
  obtain ps where "build_params ex_lib ex_stats = Inr ps" using build_params_ex by blast
  then have "check_job ex_lib ex_cfg http_always_500 ex_uuid_to_stats ''D'' s = None" for s
    by (simp add: check_job_def try_job_def page_loop_500 ex_cfg_def ex_uuid_to_stats_def)
  then show ?thesis
    by (simp add: report_def)
qed

subsection \<open>Grouping and verdict\<close>

lemma and_then_Inr [simp]: "and_then (Inr v) f = f v"
  by (simp add: and_then_def)

lemma and_then_Inl [simp]: "and_then (Inl e) f = Inl e"
  by (simp add: and_then_def)

lemma group_points_eq:
  "group_points pts d = and_then (read_points pts) (\<lambda>kjs. Inr (foldl add_point d kjs))"
proof (induction pts arbitrary: d)
  case Nil
  show ?case by simp
next
  case (Cons p rest)
  show ?case
  proof (cases "read_point p")
    case (Inl e)
    then show ?thesis
      by (auto simp: read_point_def and_then_def split: sum.splits if_splits)
  next
    case (Inr kj)
    then have "group_points (p # rest) d = group_points rest (add_point d kj)"
      by (auto simp: read_point_def and_then_def add_point_def split: sum.splits if_splits)
    with Inr Cons.IH [of "add_point d kj"] show ?thesis
      by (cases "read_points rest") simp_all
  qed
qed

lemma map_of_dict_set: "map_of (dict_set k v d) = (map_of d)(k \<mapsto> v)"
  by (induction d) (auto simp: fun_eq_iff)

lemma dict_set_keys:
  "map fst (dict_set k v d) = (if k \<in> fst ` set d then map fst d else map fst d @ [k])"
  by (induction d) (auto split: if_splits)

lemma groups_of_add_point:
  assumes "groups_of d kjs"
  shows "groups_of (add_point d kj) (kjs @ [kj])"
proof -
  obtain k j where kj: "kj = (k, j)" by (cases kj)
  from assms have dist: "distinct (map fst d)"
    and mo: "\<And>k. map_of d k =
        (if k \<in> fst ` set kjs then Some (map snd (filter (\<lambda>kj. fst kj = k) kjs)) else None)"
    unfolding groups_of_def by blast+
  have dom: "k \<in> fst ` set d \<longleftrightarrow> k \<in> fst ` set kjs" for k
    using mo [of k] by (metis map_of_eq_None_iff option.distinct(1))
  show ?thesis
  proof (cases "dict_has k d")
    case True
    then have kin: "k \<in> fst ` set kjs"
      using mo [of k] by (auto simp: dict_has_def split: if_splits)
    with mo [of k] have get: "dict_get k d = map snd (filter (\<lambda>kj. fst kj = k) kjs)"
      by (simp add: dict_get_def)
    from True have ap: "add_point d (k, j) =
        dict_set k (map snd (filter (\<lambda>kj. fst kj = k) kjs) @ [j]) d"
      by (simp add: add_point_def get)
    from kin dom [of k] have keys: "distinct (map fst (add_point d (k, j)))"
      using dist by (simp add: ap dict_set_keys)
    have "map_of (add_point d (k, j)) k' =
        (if k' \<in> fst ` set (kjs @ [(k, j)])
         then Some (map snd (filter (\<lambda>kj. fst kj = k') (kjs @ [(k, j)]))) else None)" for k'
      using mo [of k'] kin by (cases "k' = k") (simp_all add: ap map_of_dict_set)
    with keys show ?thesis unfolding groups_of_def kj by blast
  next
    case False
    then have kout: "k \<notin> fst ` set kjs"
      using mo [of k] by (auto simp: dict_has_def split: if_splits)
    then have empty: "filter (\<lambda>kj. fst kj = k) kjs = []"
      by (auto simp: filter_empty_conv)
    from False have ap: "add_point d (k, j) = dict_set k [j] d"
      by (simp add: add_point_def)
    from kout dom [of k] have keys: "distinct (map fst (add_point d (k, j)))"
      using dist by (simp add: ap dict_set_keys)
    have "map_of (add_point d (k, j)) k' =
        (if k' \<in> fst ` set (kjs @ [(k, j)])
         then Some (map snd (filter (\<lambda>kj. fst kj = k') (kjs @ [(k, j)]))) else None)" for k'
      using mo [of k'] kout empty by (cases "k' = k") (simp_all add: ap map_of_dict_set)
    with keys show ?thesis unfolding groups_of_def kj by blast
  qed
qed

lemma groups_of_foldl:
  "groups_of d pre \<Longrightarrow> groups_of (foldl add_point d kjs) (pre @ kjs)"
proof (induction kjs arbitrary: d pre)
  case Nil
  then show ?case by simp
next
  case (Cons kj kjs)
  from Cons.IH [OF groups_of_add_point [OF Cons.prems, of kj]] show ?case by simp
qed

lemma not_distinct_iff_count:
  "\<not> distinct xs \<longleftrightarrow> (\<exists>x. 1 < count_list xs x)"
proof (induction xs)
  case Nil
  show ?case by simp
next
  case (Cons a xs)
  show ?case
  proof (cases "a \<in> set xs")
    case True
    then have "0 < count_list xs a" using count_list_0_iff [of xs a] by auto
    then have "1 < count_list (a # xs) a" by simp
    with True show ?thesis by (intro iffI exI [of _ a]) simp_all
  next
    case False
    then have "count_list xs a = 0" by (simp add: count_list_0_iff)
    then have "1 < count_list (a # xs) x \<longleftrightarrow> 1 < count_list xs x" for x
      by (cases "x = a") auto
    with False Cons show ?thesis by simp
  qed
qed

lemma count_list_map_fst:
  "count_list (map fst kjs) k = length (filter (\<lambda>kj. fst kj = k) kjs)"
  by (induction kjs) auto

lemma any_group_iff:
  assumes "groups_of d kjs"
  shows "any_group d \<longleftrightarrow> \<not> distinct (map fst kjs)"
proof -
  from assms have dist: "distinct (map fst d)"
    and mo: "\<And>k. map_of d k =
        (if k \<in> fst ` set kjs then Some (map snd (filter (\<lambda>kj. fst kj = k) kjs)) else None)"
    unfolding groups_of_def by blast+
  have "any_group d \<longleftrightarrow> (\<exists>e\<in>set d. 1 < length (snd e))"
    by (simp add: any_group_def list_ex_iff)
  also have "\<dots> \<longleftrightarrow> (\<exists>k js. (k, js) \<in> set d \<and> 1 < length js)"
  proof
    assume "\<exists>e\<in>set d. 1 < length (snd e)"
    then obtain e where "e \<in> set d" "1 < length (snd e)" by blast
    then have "(fst e, snd e) \<in> set d \<and> 1 < length (snd e)" by simp
    then show "\<exists>k js. (k, js) \<in> set d \<and> 1 < length js" by blast
  next
    assume "\<exists>k js. (k, js) \<in> set d \<and> 1 < length js"
    then obtain k js where "(k, js) \<in> set d" "1 < length js" by blast
    then have "(k, js) \<in> set d \<and> 1 < length (snd (k, js))" by simp
    then show "\<exists>e\<in>set d. 1 < length (snd e)" by blast
  qed
  also have "\<dots> \<longleftrightarrow> (\<exists>k js. map_of d k = Some js \<and> 1 < length js)"
    using dist by simp
  also have "\<dots> \<longleftrightarrow> (\<exists>k. 1 < count_list (map fst kjs) k)"
  proof
    assume "\<exists>k js. map_of d k = Some js \<and> 1 < length js"
    then obtain k js where "map_of d k = Some js" "1 < length js" by blast
    with mo [of k] show "\<exists>k. 1 < count_list (map fst kjs) k"
      by (auto simp: count_list_map_fst split: if_splits)
  next
    assume "\<exists>k. 1 < count_list (map fst kjs) k"
    then obtain k where k: "1 < count_list (map fst kjs) k" by blast
    then have "k \<in> fst ` set kjs"
      by (metis count_list_0_iff not_less_zero set_map)
    with mo [of k] k
    have "map_of d k = Some (map snd (filter (\<lambda>kj. fst kj = k) kjs)) \<and>
        1 < length (map snd (filter (\<lambda>kj. fst kj = k) kjs))"
      by (simp add: count_list_map_fst)
    then show "\<exists>k js. map_of d k = Some js \<and> 1 < length js"
      by blast
  qed
  finally show ?thesis by (simp add: not_distinct_iff_count)
qed

lemma group_points_verdict:
  "group_points pts [] =
     (case read_points pts of Inl e \<Rightarrow> Inl e
      | Inr kjs \<Rightarrow> Inr (foldl add_point [] kjs))"
  "read_points pts = Inr kjs \<Longrightarrow> any_group (foldl add_point [] kjs) \<longleftrightarrow> \<not> distinct (map fst kjs)"
proof -
  show "group_points pts [] =
     (case read_points pts of Inl e \<Rightarrow> Inl e
      | Inr kjs \<Rightarrow> Inr (foldl add_point [] kjs))"
    by (simp add: group_points_eq and_then_def)
  have "groups_of ([] :: (point_key \<times> jval list) list) ([] :: (point_key \<times> jval) list)"
    by (simp add: groups_of_def)
  from groups_of_foldl [OF this, of kjs] any_group_iff
  show "any_group (foldl add_point [] kjs) \<longleftrightarrow> \<not> distinct (map fst kjs)"
    by simp
qed

lemma page_loop_single_page:
  assumes "next_url \<noteq> JNull" and "next_url \<noteq> JStr ''NA''"
    and "http n next_url params = Inr response"
    and "status_code response = 200"
    and "read_page response = Inr (points, nxt)"
    and "nxt = JNull \<or> nxt = JStr ''NA''"
  shows "page_loop http next_url params acc (n, sl) = Some (Inr (acc @ points), (n + 1, sl))"
proof -
  have r: "retry_loop http next_url params 1 2 response (n + 1, sl) = Some (Inr response, (n + 1, sl))"
    using assms(4) by (subst retry_loop.simps) simp
  have stop: "page_loop http nxt [] (acc @ points) (n + 1, sl) = Some (Inr (acc @ points), (n + 1, sl))"
    using assms(6) by (subst page_loop.simps) auto
  show ?thesis
    using assms(1,2,3,5) r stop by (subst page_loop.simps) simp
qed

lemma build_params_ex_stats:
  "build_params ex_lib ex_stats =
     Inr [(''provider'', JStr ''P''), (''project'', JStr ''Q''), (''platform'', JStr ''30''),
          (''bbox'', JStr ''0.0,0.0,0.0,0.0''), (''minDepth'', JNum 0), (''maxDepth'', JNum 5),
          (''startTime'', JStr ''1970-01-01T00:00:00Z''),
          (''endTime'', JStr ''1970-01-01T00:00:00Z''), (''itemsPerPage'', JNum 20000)]"
  by (simp add: build_params_def ex_stats_def ex_lib_def)

lemma read_page_two:
  "read_page \<lparr>status_code = 200,
       body = Some (JObj [(''results'', JArr [a, b]), (''next'', JStr ''NA'')])\<rparr> =
     Inr ([a, b], JStr ''NA'')"
  by (simp add: read_page_def raise_for_status_def)

lemma read_points_two:
  "read_points [ex_point, ex_point_other] =
     Inr [((JStr ''1970-01-01T00:00:30Z'', JNum (1 / 2), JNum (1 / 2), JNum 3), JStr ''J1''),
          ((JStr ''1970-01-01T00:00:30Z'', JNum (1 / 2), JNum (1 / 2), JNum 3), JStr ''J2'')]"
  by (simp add: read_point_def point_key_def ex_point_def ex_point_other_def)


text \<open>
  Claim C1, as the code has it.  For a job with a retained stats record from which the
  query parameters can be built and whose paginated query returns the points
  \<open>insitu_points\<close>: when a point lacks one of the five fields or has an unhashable key the
  job is suspected; otherwise the job is confirmed if and only if two of the points have
  the same (time, latitude, longitude, depth), whatever job ids they are attributed to,
  and is a missing ingest record if not.
\<close>

theorem fallback_verdict:
  assumes "stats uuid = Some parquet_stats"
    and "build_params lib parquet_stats = Inr params"
    and "page_loop http (JStr (DOMS_QUERY_URL cfg)) params [] w = Some (Inr insitu_points, w')"
  shows "check_job lib cfg http stats uuid (out, w) =
     Some (case read_points insitu_points of
             Inl e \<Rightarrow> out\<lparr>suspected_duplicates := suspected_duplicates out @ [uuid]\<rparr>
           | Inr kjs \<Rightarrow>
               if \<not> distinct (map fst kjs)
               then out\<lparr>confirmed_duplicates := confirmed_duplicates out @ [uuid]\<rparr>
               else out\<lparr>missing_ingest_records := missing_ingest_records out @ [uuid]\<rparr>, w')"
proof (cases "read_points insitu_points")
  case (Inl e)
  then have "group_points insitu_points [] = Inl e"
    by (simp add: group_points_verdict(1))
  with assms Inl show ?thesis
    by (simp add: check_job_def try_job_def)
next
  case (Inr kjs)
  then have "group_points insitu_points [] = Inr (foldl add_point [] kjs)"
    by (simp add: group_points_verdict(1))
  with assms Inr group_points_verdict(2) [OF Inr] show ?thesis
    by (simp add: check_job_def try_job_def)
qed


theorem fallback_verdict_witness:
  "ex_uuid_to_stats ''D'' = Some ex_stats \<and>
   check_job ex_lib ex_cfg http_two_jobs ex_uuid_to_stats ''D'' (out_init, (0, [])) =
     Some (out_init\<lparr>confirmed_duplicates := [''D'']\<rparr>, (1, []))"
proof -
  have a: "ex_uuid_to_stats ''D'' = Some ex_stats"
    by (simp add: ex_uuid_to_stats_def)
  have "page_loop http_two_jobs (JStr (DOMS_QUERY_URL ex_cfg))
      [(''provider'', JStr ''P''), (''project'', JStr ''Q''), (''platform'', JStr ''30''),
          (''bbox'', JStr ''0.0,0.0,0.0,0.0''), (''minDepth'', JNum 0), (''maxDepth'', JNum 5),
          (''startTime'', JStr ''1970-01-01T00:00:00Z''),
          (''endTime'', JStr ''1970-01-01T00:00:00Z''), (''itemsPerPage'', JNum 20000)] [] (0, []) =
      Some (Inr ([] @ [ex_point, ex_point_other]), (0 + 1, []))"
    by (rule page_loop_single_page [OF _ _ _ _ read_page_two])
       (simp_all add: ex_cfg_def http_two_jobs_def)
  then have c: "page_loop http_two_jobs (JStr (DOMS_QUERY_URL ex_cfg))
      [(''provider'', JStr ''P''), (''project'', JStr ''Q''), (''platform'', JStr ''30''),
          (''bbox'', JStr ''0.0,0.0,0.0,0.0''), (''minDepth'', JNum 0), (''maxDepth'', JNum 5),
          (''startTime'', JStr ''1970-01-01T00:00:00Z''),
          (''endTime'', JStr ''1970-01-01T00:00:00Z''), (''itemsPerPage'', JNum 20000)] [] (0, []) =
      Some (Inr [ex_point, ex_point_other], (1, []))"
    by simp
  from fallback_verdict [where stats = ex_uuid_to_stats and uuid = "''D''" and out = out_init,
      OF a build_params_ex_stats c] a
  show ?thesis
    by (simp add: read_points_two out_init_def del: read_points.simps)
qed


text \<open>
  Claim C1 as stated fails: a page with the same point twice, both attributed to job
  \<open>J1\<close>, confirms job \<open>D\<close>.
\<close>

theorem fallback_same_job_counterexample:
  "getitem ex_point ''job_id'' = Inr (JStr ''J1'') \<and>
   read_page \<lparr>status_code = 200,
       body = Some (JObj [(''results'', JArr [ex_point, ex_point]), (''next'', JStr ''NA'')])\<rparr> =
     Inr ([ex_point, ex_point], JStr ''NA'') \<and>
   check_job ex_lib ex_cfg http_same_job ex_uuid_to_stats ''D'' (out_init, (0, [])) =
     Some (out_init\<lparr>confirmed_duplicates := [''D'']\<rparr>, (1, []))"
proof -
  have g: "group_points [ex_point, ex_point] [] =
     Inr [((JStr ''1970-01-01T00:00:30Z'', JNum (1 / 2), JNum (1 / 2), JNum 3),
           [JStr ''J1'', JStr ''J1''])]"
    by (simp add: point_key_def ex_point_def dict_has_def dict_get_def)
  have "page_loop http_same_job (JStr (DOMS_QUERY_URL ex_cfg))
      [(''provider'', JStr ''P''), (''project'', JStr ''Q''), (''platform'', JStr ''30''),
          (''bbox'', JStr ''0.0,0.0,0.0,0.0''), (''minDepth'', JNum 0), (''maxDepth'', JNum 5),
          (''startTime'', JStr ''1970-01-01T00:00:00Z''),
          (''endTime'', JStr ''1970-01-01T00:00:00Z''), (''itemsPerPage'', JNum 20000)] [] (0, []) =
      Some (Inr ([] @ [ex_point, ex_point]), (0 + 1, []))"
    by (rule page_loop_single_page [OF _ _ _ _ read_page_two])
       (simp_all add: ex_cfg_def http_same_job_def)
  then have "check_job ex_lib ex_cfg http_same_job ex_uuid_to_stats ''D'' (out_init, (0, [])) =
     Some (out_init\<lparr>confirmed_duplicates := [''D'']\<rparr>, (1, []))"
    by (simp add: check_job_def try_job_def ex_uuid_to_stats_def build_params_ex_stats g
        any_group_def out_init_def del: group_points.simps)
  moreover have "getitem ex_point ''job_id'' = Inr (JStr ''J1'')"
    by (simp add: ex_point_def)
  ultimately show ?thesis
    by (simp add: read_page_two)
qed


subsection \<open>A job without a retained stats record\<close>






end
